theory Spec2Isabelle
  imports Main
begin

section \<open>The stored data\<close>

text \<open>
  The schema of \<^verbatim>\<open>init_db\<close>: table \<^verbatim>\<open>sessions (id TEXT PRIMARY KEY,
  player_count INTEGER NOT NULL CHECK (player_count BETWEEN 0 AND 2))\<close> and table
  \<^verbatim>\<open>moves (session_id, player_id, choice, UNIQUE (session_id, player_id),
  FOREIGN KEY (session_id) REFERENCES sessions (id))\<close>. Both are rowid tables, and nothing
  in the module deletes a row, so a table is the list of its rows in rowid order, which is
  the order of insertion.
\<close>

record session_row =
  s_id :: string
  s_player_count :: int

record move_row =
  m_session_id :: string
  m_player_id :: string
  m_choice :: string

record db =
  tbl_sessions :: "session_row list"
  tbl_moves :: "move_row list"

text \<open>
  The module raises \<^verbatim>\<open>ValueError\<close> with a message, and lets
  \<^verbatim>\<open>sqlite3.IntegrityError\<close> escape where it does not catch it.
\<close>

datatype error = ValueError string | IntegrityError

datatype phase = waiting_for_opponent | waiting_for_moves | finished

text \<open>The dictionary returned by \<^verbatim>\<open>get_state\<close>, keys "players", "moves", "phase".\<close>

record state =
  st_players :: int
  st_moves :: int
  st_phase :: phase

text \<open>One dictionary of the list returned by \<^verbatim>\<open>get_results\<close>, keys "player", "choice".\<close>

record result_row =
  r_player :: string
  r_choice :: string

section \<open>Connections and SQL statements\<close>

text \<open>
  \<^verbatim>\<open>_get_conn\<close> yields a connection, commits when the body ends normally, and only
  closes the connection when the body raises: what the body wrote is then lost.
\<close>

definition get_conn :: "(db \<Rightarrow> (error + 'a) \<times> db) \<Rightarrow> db \<Rightarrow> (error + 'a) \<times> db" where
  "get_conn body s =
     (case body s of
        (Inl e, s') \<Rightarrow> (Inl e, s)
      | (Inr v, s') \<Rightarrow> (Inr v, s'))"

text \<open>
  \<^verbatim>\<open>SELECT id FROM sessions WHERE player_count = 1 LIMIT 1\<close>. No index covers
  \<^verbatim>\<open>player_count\<close>, so the table is scanned in rowid order and the first match is the row.
\<close>

definition select_open_session :: "db \<Rightarrow> string option" where
  "select_open_session s = map_option s_id (find (\<lambda>r. s_player_count r = 1) (tbl_sessions s))"

text \<open>
  \<^verbatim>\<open>UPDATE sessions SET player_count = player_count + 1 WHERE id = ?\<close>. The statement
  fails as a whole when a new value breaks the CHECK constraint.
\<close>

definition update_player_count :: "string \<Rightarrow> db \<Rightarrow> error + db" where
  "update_player_count i s =
     (if list_ex (\<lambda>r. s_id r = i \<and> (s_player_count r + 1 < 0 \<or> 2 < s_player_count r + 1)) (tbl_sessions s)
      then Inl IntegrityError
      else Inr (s\<lparr>tbl_sessions :=
                   map (\<lambda>r. if s_id r = i then r\<lparr>s_player_count := s_player_count r + 1\<rparr> else r)
                     (tbl_sessions s)\<rparr>))"

text \<open>
  \<^verbatim>\<open>INSERT INTO sessions (id, player_count) VALUES (?, 1)\<close>. The primary key refuses an
  id that is already there.
\<close>

definition insert_session :: "string \<Rightarrow> db \<Rightarrow> error + db" where
  "insert_session i s =
     (if i \<in> set (map s_id (tbl_sessions s)) then Inl IntegrityError
      else Inr (s\<lparr>tbl_sessions := tbl_sessions s @ [\<lparr>s_id = i, s_player_count = 1\<rparr>]\<rparr>))"

text \<open>\<^verbatim>\<open>SELECT player_count FROM sessions WHERE id = ?\<close>, then \<^verbatim>\<open>fetchone\<close>.\<close>

definition select_player_count :: "string \<Rightarrow> db \<Rightarrow> int option" where
  "select_player_count i s = map_option s_player_count (find (\<lambda>r. s_id r = i) (tbl_sessions s))"

text \<open>\<^verbatim>\<open>SELECT COUNT(*) FROM moves WHERE session_id = ?\<close>.\<close>

definition count_moves :: "string \<Rightarrow> db \<Rightarrow> int" where
  "count_moves i s = int (length (filter (\<lambda>m. m_session_id m = i) (tbl_moves s)))"

text \<open>
  \<^verbatim>\<open>INSERT INTO moves (session_id, player_id, choice) VALUES (?, ?, ?)\<close>. The UNIQUE
  constraint refuses a second row with the same pair, and the foreign key (switched on by
  \<^verbatim>\<open>_get_conn\<close>) refuses a session id that has no row in \<^verbatim>\<open>sessions\<close>.
\<close>

definition insert_move :: "string \<Rightarrow> string \<Rightarrow> string \<Rightarrow> db \<Rightarrow> error + db" where
  "insert_move i p c s =
     (if (i, p) \<in> set (map (\<lambda>m. (m_session_id m, m_player_id m)) (tbl_moves s)) then Inl IntegrityError
      else if i \<notin> set (map s_id (tbl_sessions s)) then Inl IntegrityError
      else Inr (s\<lparr>tbl_moves := tbl_moves s @ [\<lparr>m_session_id = i, m_player_id = p, m_choice = c\<rparr>]\<rparr>))"

text \<open>\<^verbatim>\<open>SELECT player_id, choice FROM moves WHERE session_id = ? ORDER BY ROWID\<close>.\<close>

definition select_moves :: "string \<Rightarrow> db \<Rightarrow> (string \<times> string) list" where
  "select_moves i s = map (\<lambda>m. (m_player_id m, m_choice m)) (filter (\<lambda>m. m_session_id m = i) (tbl_moves s))"

section \<open>The public functions\<close>

text \<open>
  \<^verbatim>\<open>join_session\<close>. The two results of \<^verbatim>\<open>uuid.uuid4()\<close> are arguments: \<open>uuid1\<close> is the
  one drawn for the player, \<open>uuid2\<close> the one drawn for a new session (drawn only when no
  open session was found).
\<close>

definition join_session :: "string \<Rightarrow> string \<Rightarrow> db \<Rightarrow> (error + string \<times> string) \<times> db" where
  "join_session uuid1 uuid2 =
     get_conn (\<lambda>s.
       let row = select_open_session s;
           player_id = uuid1
       in case row of
            Some session_id \<Rightarrow>
              (case update_player_count session_id s of
                 Inl e \<Rightarrow> (Inl e, s)
               | Inr s' \<Rightarrow> (Inr (session_id, player_id), s'))
          | None \<Rightarrow>
              (let session_id = uuid2
               in case insert_session session_id s of
                    Inl e \<Rightarrow> (Inl e, s)
                  | Inr s' \<Rightarrow> (Inr (session_id, player_id), s')))"


text \<open>The phase decision at the end of \<^verbatim>\<open>get_state\<close>.\<close>

definition decide_phase :: "int \<Rightarrow> int \<Rightarrow> phase" where
  "decide_phase players moves =
     (if players < 2 then waiting_for_opponent
      else if moves < players then waiting_for_moves
      else finished)"

definition get_state :: "string \<Rightarrow> db \<Rightarrow> (error + state) \<times> db" where
  "get_state session_id s =
     (case get_conn (\<lambda>s.
             case select_player_count session_id s of
               None \<Rightarrow> (Inl (ValueError (''Unknown session_id: '' @ session_id)), s)
             | Some players \<Rightarrow> (Inr (players, count_moves session_id s), s)) s of
        (Inl e, s') \<Rightarrow> (Inl e, s')
      | (Inr (players, moves), s') \<Rightarrow>
          (Inr \<lparr>st_players = players, st_moves = moves, st_phase = decide_phase players moves\<rparr>, s'))"

text \<open>
  \<^verbatim>\<open>save_move\<close> opens its connection, calls \<^verbatim>\<open>get_state\<close> (which opens and closes
  one of its own), and turns an \<^verbatim>\<open>IntegrityError\<close> of the insert into a
  \<^verbatim>\<open>ValueError\<close>.
\<close>

definition save_move :: "string \<Rightarrow> string \<Rightarrow> string \<Rightarrow> db \<Rightarrow> (error + unit) \<times> db" where
  "save_move session_id player_id choice =
     get_conn (\<lambda>s.
       case get_state session_id s of
         (Inl e, s1) \<Rightarrow> (Inl e, s1)
       | (Inr state, s1) \<Rightarrow>
           if st_phase state = waiting_for_opponent
           then (Inl (ValueError ''Cannot submit moves until two players have joined.''), s1)
           else if st_phase state = finished
           then (Inl (ValueError ''Session already finished; no further moves accepted.''), s1)
           else (case insert_move session_id player_id choice s1 of
                   Inl IntegrityError \<Rightarrow> (Inl (ValueError ''Duplicate move or invalid session.''), s1)
                 | Inl (ValueError msg) \<Rightarrow> (Inl (ValueError msg), s1)
                 | Inr s2 \<Rightarrow> (Inr (), s2)))"

definition get_results :: "string \<Rightarrow> db \<Rightarrow> (error + result_row list) \<times> db" where
  "get_results session_id =
     get_conn (\<lambda>s.
       (Inr (map (\<lambda>(p, c). \<lparr>r_player = p, r_choice = c\<rparr>) (select_moves session_id s)), s))"

section \<open>Error kinds\<close>

text \<open>
  The four kinds of failure that a caller can tell apart, by the message of the
  \<^verbatim>\<open>ValueError\<close>: an unknown session, a move before the second player has joined, a move
  after the session has finished, and a refused insert.
\<close>

definition NotFound :: "string \<Rightarrow> error" where
  "NotFound session_id = ValueError (''Unknown session_id: '' @ session_id)"

definition InvalidState_waiting :: error where
  "InvalidState_waiting = ValueError ''Cannot submit moves until two players have joined.''"

definition InvalidState_finished :: error where
  "InvalidState_finished = ValueError ''Session already finished; no further moves accepted.''"

definition DuplicateMove :: error where
  "DuplicateMove = ValueError ''Duplicate move or invalid session.''"

section \<open>Sequences of calls\<close>

text \<open>
  A database created by \<^verbatim>\<open>init_db\<close> has both tables and no row. A call of the public
  interface is an \<open>op\<close>; \<open>exec\<close> gives the database it leaves behind, whether it
  returned or raised.
\<close>

definition init_db :: db where
  "init_db = \<lparr>tbl_sessions = [], tbl_moves = []\<rparr>"

datatype op =
    Join string string
  | GetState string
  | SaveMove string string string
  | GetResults string

fun exec :: "op \<Rightarrow> db \<Rightarrow> db" where
  "exec (Join uuid1 uuid2) s = snd (join_session uuid1 uuid2 s)"
| "exec (GetState i) s = snd (get_state i s)"
| "exec (SaveMove i p c) s = snd (save_move i p c s)"
| "exec (GetResults i) s = snd (get_results i s)"

primrec run :: "op list \<Rightarrow> db \<Rightarrow> db" where
  "run [] s = s"
| "run (x # xs) s = run xs (exec x s)"

section \<open>Vocabulary of the properties\<close>

text \<open>What a database holds for a session id, and the phase \<^verbatim>\<open>get_state\<close> reports.\<close>

definition session_exists :: "string \<Rightarrow> db \<Rightarrow> bool" where
  "session_exists i s \<longleftrightarrow> i \<in> set (map s_id (tbl_sessions s))"

definition move_exists :: "string \<Rightarrow> string \<Rightarrow> db \<Rightarrow> bool" where
  "move_exists i p s \<longleftrightarrow> (i, p) \<in> set (map (\<lambda>m. (m_session_id m, m_player_id m)) (tbl_moves s))"

definition moves_of :: "string \<Rightarrow> db \<Rightarrow> move_row list" where
  "moves_of i s = filter (\<lambda>m. m_session_id m = i) (tbl_moves s)"

definition phase_of :: "string \<Rightarrow> db \<Rightarrow> phase option" where
  "phase_of i s = (case fst (get_state i s) of Inl e \<Rightarrow> None | Inr st \<Rightarrow> Some (st_phase st))"

text \<open>
  The constraints of the schema, which SQLite keeps for every database the module can
  meet: the primary key of \<^verbatim>\<open>sessions\<close>, its CHECK constraint, the UNIQUE
  constraint of \<^verbatim>\<open>moves\<close> and its foreign key.
\<close>

definition schema_ok :: "db \<Rightarrow> bool" where
  "schema_ok s \<longleftrightarrow>
     distinct (map s_id (tbl_sessions s))
     \<and> list_all (\<lambda>r. 0 \<le> s_player_count r \<and> s_player_count r \<le> 2) (tbl_sessions s)
     \<and> distinct (map (\<lambda>m. (m_session_id m, m_player_id m)) (tbl_moves s))
     \<and> list_all (\<lambda>m. m_session_id m \<in> set (map s_id (tbl_sessions s))) (tbl_moves s)"

text \<open>
  The phase as the specification words it: below two participants
  \<open>waiting_for_opponent\<close>; with exactly two participants and fewer moves than
  participants \<open>waiting_for_moves\<close>; otherwise \<open>finished\<close>. It is compared with
  \<open>decide_phase\<close>, which is the code.
\<close>

definition spec_phase :: "int \<Rightarrow> int \<Rightarrow> phase" where
  "spec_phase participant_count move_count =
     (if participant_count < 2 then waiting_for_opponent
      else if participant_count = 2 \<and> move_count < participant_count then waiting_for_moves
      else finished)"

text \<open>
  What holds of every database that calls of the public functions build from the empty
  one: session ids are distinct, a player count is 1 or 2, moves belong to full sessions,
  a session has at most two moves, no pair (session id, player id) occurs twice, and at
  most one session is open. By the last part the row that \<^verbatim>\<open>LIMIT 1\<close> picks is the only
  candidate, so the order of the scan does not show in these databases.
\<close>

definition engine_inv :: "db \<Rightarrow> bool" where
  "engine_inv s \<longleftrightarrow>
     distinct (map s_id (tbl_sessions s))
     \<and> (\<forall>r \<in> set (tbl_sessions s). s_player_count r = 1 \<or> s_player_count r = 2)
     \<and> (\<forall>m \<in> set (tbl_moves s). \<exists>r \<in> set (tbl_sessions s).
           s_id r = m_session_id m \<and> s_player_count r = 2)
     \<and> (\<forall>i. length (moves_of i s) \<le> 2)
     \<and> distinct (map (\<lambda>m. (m_session_id m, m_player_id m)) (tbl_moves s))
     \<and> (\<forall>r \<in> set (tbl_sessions s). \<forall>r' \<in> set (tbl_sessions s).
           s_player_count r = 1 \<and> s_player_count r' = 1 \<longrightarrow> r = r')"

text \<open>Every session of \<open>s\<close> is a session of \<open>s'\<close>, with a player count not smaller.\<close>

definition grows :: "db \<Rightarrow> db \<Rightarrow> bool" where
  "grows s s' \<longleftrightarrow>
     (\<forall>r \<in> set (tbl_sessions s). \<exists>r' \<in> set (tbl_sessions s').
        s_id r' = s_id r \<and> s_player_count r \<le> s_player_count r')"

text \<open>
  The pairs (session id, player id) that the calls of \<^verbatim>\<open>join_session\<close> in a sequence
  have returned, in order; \<open>issued_ok\<close> relates them to the player counts.
\<close>

fun issued_by :: "op \<Rightarrow> db \<Rightarrow> (string \<times> string) list" where
  "issued_by (Join uuid1 uuid2) s =
     (case fst (join_session uuid1 uuid2 s) of Inl e \<Rightarrow> [] | Inr pair \<Rightarrow> [pair])"
| "issued_by (GetState i) s = []"
| "issued_by (SaveMove i p c) s = []"
| "issued_by (GetResults i) s = []"

primrec issued :: "op list \<Rightarrow> db \<Rightarrow> (string \<times> string) list" where
  "issued [] s = []"
| "issued (x # xs) s = issued_by x s @ issued xs (exec x s)"

definition issued_ok :: "(string \<times> string) list \<Rightarrow> db \<Rightarrow> bool" where
  "issued_ok js s \<longleftrightarrow>
     (\<forall>r \<in> set (tbl_sessions s).
        int (length (filter (\<lambda>q. fst q = s_id r) js)) = s_player_count r)
     \<and> (\<forall>q \<in> set js. session_exists (fst q) s)"

text \<open>
  Databases of one session: after the first join, after the second, and after a move
  (by player \<open>p1\<close>, whom a join has issued, or under the id \<open>p3\<close>, which no join has
  issued).
\<close>

definition db1 :: db where
  "db1 = \<lparr>tbl_sessions = [\<lparr>s_id = ''s1'', s_player_count = 1\<rparr>], tbl_moves = []\<rparr>"

definition db2 :: db where
  "db2 = \<lparr>tbl_sessions = [\<lparr>s_id = ''s1'', s_player_count = 2\<rparr>], tbl_moves = []\<rparr>"

definition db3 :: db where
  "db3 = \<lparr>tbl_sessions = [\<lparr>s_id = ''s1'', s_player_count = 2\<rparr>],
          tbl_moves = [\<lparr>m_session_id = ''s1'', m_player_id = ''p1'', m_choice = ''rock''\<rparr>]\<rparr>"

definition db3' :: db where
  "db3' = \<lparr>tbl_sessions = [\<lparr>s_id = ''s1'', s_player_count = 2\<rparr>],
          tbl_moves = [\<lparr>m_session_id = ''s1'', m_player_id = ''p3'', m_choice = ''rock''\<rparr>]\<rparr>"

definition db4 :: db where
  "db4 = \<lparr>tbl_sessions = [\<lparr>s_id = ''s1'', s_player_count = 2\<rparr>],
          tbl_moves = [\<lparr>m_session_id = ''s1'', m_player_id = ''p1'', m_choice = ''rock''\<rparr>,
                       \<lparr>m_session_id = ''s1'', m_player_id = ''p2'', m_choice = ''paper''\<rparr>]\<rparr>"




section \<open>Reads do not write\<close>

lemma get_state_snd: "snd (get_state i s) = s"
  by (simp add: get_state_def get_conn_def split: option.split)

lemma get_results_snd: "snd (get_results i s) = s"
  by (simp add: get_results_def get_conn_def)

text \<open>
  C9. \<^verbatim>\<open>get_state\<close> and \<^verbatim>\<open>get_results\<close> leave the whole database as it was, sessions
  and moves alike, and a second call with the same argument, made on the database the
  first call left behind, returns what the first call returned.
\<close>

theorem reads_leave_db_unchanged:
  "snd (get_state i s) = s \<and> snd (get_results i s) = s
   \<and> fst (get_state i (snd (get_state i s))) = fst (get_state i s)
   \<and> fst (get_results i (snd (get_results i s))) = fst (get_results i s)"
  by (simp add: get_state_snd get_results_snd)

section \<open>Single calls\<close>

lemma find_id_None: "find (\<lambda>r. s_id r = i) xs = None \<longleftrightarrow> i \<notin> set (map s_id xs)"
  by (induction xs) auto

lemma find_id_Some:
  "distinct (map s_id xs) \<Longrightarrow> r \<in> set xs \<Longrightarrow> find (\<lambda>r'. s_id r' = s_id r) xs = Some r"
  by (induction xs) (auto simp: rev_image_eqI)

lemma select_player_count_None:
  "select_player_count i s = None \<longleftrightarrow> \<not> session_exists i s"
  by (simp add: select_player_count_def session_exists_def find_id_None)

lemma select_player_count_Some:
  "distinct (map s_id (tbl_sessions s)) \<Longrightarrow> r \<in> set (tbl_sessions s) \<Longrightarrow>
   select_player_count (s_id r) s = Some (s_player_count r)"
  by (simp add: select_player_count_def find_id_Some)

lemma get_state_eq:
  "get_state i s =
     (case select_player_count i s of
        None \<Rightarrow> (Inl (NotFound i), s)
      | Some n \<Rightarrow> (Inr \<lparr>st_players = n, st_moves = count_moves i s,
                        st_phase = decide_phase n (count_moves i s)\<rparr>, s))"
  by (simp add: get_state_def get_conn_def NotFound_def split: option.split)

lemma phase_of_eq:
  "phase_of i s = map_option (\<lambda>n. decide_phase n (count_moves i s)) (select_player_count i s)"
  by (simp add: phase_of_def get_state_eq split: option.split)

lemma error_kinds_distinct:
  "NotFound i \<noteq> InvalidState_waiting" "NotFound i \<noteq> InvalidState_finished"
  "NotFound i \<noteq> DuplicateMove" "InvalidState_waiting \<noteq> DuplicateMove"
  "InvalidState_finished \<noteq> DuplicateMove" "InvalidState_waiting \<noteq> InvalidState_finished"
  by (simp_all add: NotFound_def InvalidState_waiting_def InvalidState_finished_def DuplicateMove_def)

lemma save_move_effect:
  "save_move i p c s =
     (if \<not> session_exists i s then (Inl (NotFound i), s)
      else if phase_of i s = Some waiting_for_opponent then (Inl InvalidState_waiting, s)
      else if phase_of i s = Some finished then (Inl InvalidState_finished, s)
      else if move_exists i p s then (Inl DuplicateMove, s)
      else (Inr (), s\<lparr>tbl_moves := tbl_moves s @ [\<lparr>m_session_id = i, m_player_id = p, m_choice = c\<rparr>]\<rparr>))"
proof (cases "select_player_count i s")
  case None
  then show ?thesis
    by (simp add: save_move_def get_conn_def get_state_eq select_player_count_None [symmetric])
next
  case (Some n)
  then have ex: "session_exists i s"
    using select_player_count_None [of i s] by simp
  then have mem: "i \<in> set (map s_id (tbl_sessions s))"
    by (simp add: session_exists_def)
  show ?thesis
    using Some ex mem
    by (simp add: save_move_def get_conn_def get_state_eq phase_of_eq insert_move_def
        move_exists_def InvalidState_waiting_def InvalidState_finished_def DuplicateMove_def)
qed

lemma decide_phase_spec:
  "0 \<le> n \<Longrightarrow> n \<le> 2 \<Longrightarrow> decide_phase n k = spec_phase n k"
  by (simp add: decide_phase_def spec_phase_def)

text \<open>
  C2. On a database that satisfies the schema, \<^verbatim>\<open>save_move\<close> checks in this order:
  it raises the unknown-session error iff the session has no row; else, with the phase
  that the specification gives for the stored player count and the number of stored
  moves of the session, the error for a missing opponent iff that phase is
  \<open>waiting_for_opponent\<close>; else the error for a finished session iff it is
  \<open>finished\<close>; else the duplicate-move error iff a move with the pair (session id,
  player id) is stored; otherwise it returns and has appended exactly one move row. In
  every failing case the database is the one it was given. The error kinds differ from
  each other, so each "iff" reads off the equations.
\<close>

theorem save_move_spec:
  assumes "schema_ok s"
  shows "(\<not> session_exists i s \<longrightarrow> save_move i p c s = (Inl (NotFound i), s))
   \<and> (\<forall>r \<in> set (tbl_sessions s). s_id r = i \<longrightarrow>
        save_move i p c s =
          (if spec_phase (s_player_count r) (int (length (moves_of i s))) = waiting_for_opponent
           then (Inl InvalidState_waiting, s)
           else if spec_phase (s_player_count r) (int (length (moves_of i s))) = finished
           then (Inl InvalidState_finished, s)
           else if move_exists i p s then (Inl DuplicateMove, s)
           else (Inr (), s\<lparr>tbl_moves := tbl_moves s @
                   [\<lparr>m_session_id = i, m_player_id = p, m_choice = c\<rparr>]\<rparr>)))
   \<and> NotFound i \<notin> {InvalidState_waiting, InvalidState_finished, DuplicateMove}
   \<and> DuplicateMove \<notin> {InvalidState_waiting, InvalidState_finished}"
proof (intro conjI ballI impI)
  assume "\<not> session_exists i s"
  then show "save_move i p c s = (Inl (NotFound i), s)"
    by (simp add: save_move_effect)
next
  fix r assume r: "r \<in> set (tbl_sessions s)" "s_id r = i"
  from assms have d: "distinct (map s_id (tbl_sessions s))"
    and c: "list_all (\<lambda>r. 0 \<le> s_player_count r \<and> s_player_count r \<le> 2) (tbl_sessions s)"
    by (simp_all add: schema_ok_def)
  from c r(1) have b: "0 \<le> s_player_count r" "s_player_count r \<le> 2"
    by (simp_all add: list_all_iff)
  from r have ex: "session_exists i s"
    by (auto simp: session_exists_def)
  from select_player_count_Some [OF d r(1)] r(2)
  have sel: "select_player_count i s = Some (s_player_count r)" by simp
  have ph: "phase_of i s = Some (spec_phase (s_player_count r) (int (length (moves_of i s))))"
    by (simp add: phase_of_eq sel count_moves_def moves_of_def decide_phase_spec [OF b])
  show "save_move i p c s =
          (if spec_phase (s_player_count r) (int (length (moves_of i s))) = waiting_for_opponent
           then (Inl InvalidState_waiting, s)
           else if spec_phase (s_player_count r) (int (length (moves_of i s))) = finished
           then (Inl InvalidState_finished, s)
           else if move_exists i p s then (Inl DuplicateMove, s)
           else (Inr (), s\<lparr>tbl_moves := tbl_moves s @
                   [\<lparr>m_session_id = i, m_player_id = p, m_choice = c\<rparr>]\<rparr>))"
    by (simp add: save_move_effect ex ph)
next
  show "NotFound i \<notin> {InvalidState_waiting, InvalidState_finished, DuplicateMove}"
    using error_kinds_distinct by simp
next
  show "DuplicateMove \<notin> {InvalidState_waiting, InvalidState_finished}"
    using error_kinds_distinct by simp
qed

text \<open>
  C4. On a database that satisfies the schema, \<^verbatim>\<open>get_state\<close> raises the
  unknown-session error iff the session id has no row, raises nothing else, and for the
  row of the session returns its player count, the number of its moves, and the phase
  that the specification gives for these two numbers (\<open>spec_phase\<close>).
\<close>

theorem get_state_spec:
  assumes "schema_ok s"
  shows "(fst (get_state i s) = Inl (NotFound i) \<longleftrightarrow> \<not> session_exists i s)
     \<and> (\<forall>e. fst (get_state i s) = Inl e \<longrightarrow> e = NotFound i)
     \<and> (\<forall>r \<in> set (tbl_sessions s). s_id r = i \<longrightarrow>
           fst (get_state i s) =
             Inr \<lparr>st_players = s_player_count r,
                  st_moves = int (length (moves_of i s)),
                  st_phase = spec_phase (s_player_count r) (int (length (moves_of i s)))\<rparr>)"
proof (intro conjI allI ballI impI)
  show "fst (get_state i s) = Inl (NotFound i) \<longleftrightarrow> \<not> session_exists i s"
    using select_player_count_None [of i s]
    by (cases "select_player_count i s") (simp_all add: get_state_eq)
next
  fix e assume "fst (get_state i s) = Inl e"
  then show "e = NotFound i"
    by (cases "select_player_count i s") (simp_all add: get_state_eq)
next
  fix r assume r: "r \<in> set (tbl_sessions s)" and i: "s_id r = i"
  from assms have d: "distinct (map s_id (tbl_sessions s))"
    and c: "list_all (\<lambda>r. 0 \<le> s_player_count r \<and> s_player_count r \<le> 2) (tbl_sessions s)"
    by (simp_all add: schema_ok_def)
  from c r have b: "0 \<le> s_player_count r" "s_player_count r \<le> 2"
    by (simp_all add: list_all_iff)
  from select_player_count_Some [OF d r] i
  have "select_player_count i s = Some (s_player_count r)" by simp
  then show "fst (get_state i s) =
             Inr \<lparr>st_players = s_player_count r,
                  st_moves = int (length (moves_of i s)),
                  st_phase = spec_phase (s_player_count r) (int (length (moves_of i s)))\<rparr>"
    using b by (simp add: get_state_eq count_moves_def moves_of_def decide_phase_spec)
qed

lemma get_results_eq:
  "get_results i s =
     (Inr (map (\<lambda>m. \<lparr>r_player = m_player_id m, r_choice = m_choice m\<rparr>) (moves_of i s)), s)"
  by (simp add: get_results_def get_conn_def select_moves_def moves_of_def)

lemma moves_of_unknown:
  "list_all (\<lambda>m. m_session_id m \<in> set (map s_id (tbl_sessions s))) (tbl_moves s) \<Longrightarrow>
   \<not> session_exists i s \<Longrightarrow> moves_of i s = []"
  by (auto simp: moves_of_def session_exists_def list_all_iff filter_empty_conv)

lemma map_update_distinct:
  assumes "distinct (map f xs)" and "k < length xs"
  shows "map (\<lambda>r. if f r = f (xs ! k) then g r else r) xs = xs[k := g (xs ! k)]"
proof (rule nth_equalityI)
  show "length (map (\<lambda>r. if f r = f (xs ! k) then g r else r) xs) = length (xs[k := g (xs ! k)])"
    by simp
next
  fix j assume "j < length (map (\<lambda>r. if f r = f (xs ! k) then g r else r) xs)"
  then have j: "j < length xs" by simp
  show "map (\<lambda>r. if f r = f (xs ! k) then g r else r) xs ! j = xs[k := g (xs ! k)] ! j"
  proof (cases "j = k")
    case True
    with j show ?thesis by simp
  next
    case False
    from assms j have "(map f xs ! j = map f xs ! k) = (j = k)"
      by (simp only: nth_eq_iff_index_eq length_map)
    with False j assms(2) have "f (xs ! j) \<noteq> f (xs ! k)" by simp
    with False j show ?thesis by simp
  qed
qed

lemma find_open_None:
  "find (\<lambda>r. s_player_count r = 1) xs = None \<longleftrightarrow> \<not> list_ex (\<lambda>r. s_player_count r = 1) xs"
  by (auto simp: find_None_iff list_ex_iff)

lemma find_open_Some:
  "find (\<lambda>r. s_player_count r = 1) xs = Some r \<Longrightarrow>
   \<exists>k<length xs. xs ! k = r \<and> s_player_count r = 1"
  by (auto simp: find_Some_iff)

lemma update_player_count_open:
  assumes d: "distinct (map s_id (tbl_sessions s))"
    and k: "k < length (tbl_sessions s)"
    and c: "s_player_count (tbl_sessions s ! k) = 1"
  shows "update_player_count (s_id (tbl_sessions s ! k)) s =
         Inr (s\<lparr>tbl_sessions := (tbl_sessions s)
                 [k := \<lparr>s_id = s_id (tbl_sessions s ! k), s_player_count = 2\<rparr>]\<rparr>)"
proof -
  let ?xs = "tbl_sessions s"
  have one: "s_player_count r = 1" if "r \<in> set ?xs" "s_id r = s_id (?xs ! k)" for r
  proof -
    from that(1) obtain j where j: "j < length ?xs" "?xs ! j = r"
      by (auto simp: in_set_conv_nth)
    from d j(1) k have "(map s_id ?xs ! j = map s_id ?xs ! k) = (j = k)"
      by (simp only: nth_eq_iff_index_eq length_map)
    with j k that(2) have "j = k" by simp
    with j c show ?thesis by simp
  qed
  then have ok: "\<not> list_ex (\<lambda>r. s_id r = s_id (?xs ! k)
        \<and> (s_player_count r + 1 < 0 \<or> 2 < s_player_count r + 1)) ?xs"
    by (auto simp: list_ex_iff)
  have "(?xs ! k)\<lparr>s_player_count := s_player_count (?xs ! k) + 1\<rparr>
        = \<lparr>s_id = s_id (?xs ! k), s_player_count = 2\<rparr>"
    using c by simp
  with map_update_distinct [OF d k, of "\<lambda>r. r\<lparr>s_player_count := s_player_count r + 1\<rparr>"]
  have "map (\<lambda>r. if s_id r = s_id (?xs ! k) then r\<lparr>s_player_count := s_player_count r + 1\<rparr> else r) ?xs
        = ?xs[k := \<lparr>s_id = s_id (?xs ! k), s_player_count = 2\<rparr>]"
    by simp
  with ok show ?thesis
    by (simp add: update_player_count_def)
qed

lemma join_session_open:
  assumes d: "distinct (map s_id (tbl_sessions s))"
    and e: "list_ex (\<lambda>r. s_player_count r = 1) (tbl_sessions s)"
  shows "\<exists>k<length (tbl_sessions s). s_player_count (tbl_sessions s ! k) = 1 \<and>
           join_session uuid1 uuid2 s =
             (Inr (s_id (tbl_sessions s ! k), uuid1),
              s\<lparr>tbl_sessions := (tbl_sessions s)
                   [k := \<lparr>s_id = s_id (tbl_sessions s ! k), s_player_count = 2\<rparr>]\<rparr>)"
proof -
  from e obtain r where r: "find (\<lambda>r. s_player_count r = 1) (tbl_sessions s) = Some r"
    using find_open_None [of "tbl_sessions s"] by (cases "find (\<lambda>r. s_player_count r = 1) (tbl_sessions s)") auto
  from find_open_Some [OF r] obtain k where k: "k < length (tbl_sessions s)"
      "tbl_sessions s ! k = r" "s_player_count r = 1"
    by blast
  from k have c: "s_player_count (tbl_sessions s ! k) = 1" by simp
  from r k(2) have sel: "select_open_session s = Some (s_id (tbl_sessions s ! k))"
    by (simp add: select_open_session_def)
  have "join_session uuid1 uuid2 s =
             (Inr (s_id (tbl_sessions s ! k), uuid1),
              s\<lparr>tbl_sessions := (tbl_sessions s)
                   [k := \<lparr>s_id = s_id (tbl_sessions s ! k), s_player_count = 2\<rparr>]\<rparr>)"
    by (simp add: join_session_def get_conn_def Let_def sel update_player_count_open [OF d k(1) c])
  with k(1) c show ?thesis by blast
qed

lemma join_session_new:
  assumes "\<not> list_ex (\<lambda>r. s_player_count r = 1) (tbl_sessions s)"
  shows "join_session uuid1 uuid2 s =
     (if session_exists uuid2 s then (Inl IntegrityError, s)
      else (Inr (uuid2, uuid1),
            s\<lparr>tbl_sessions := tbl_sessions s @ [\<lparr>s_id = uuid2, s_player_count = 1\<rparr>]\<rparr>))"
proof -
  from assms have "select_open_session s = None"
    by (simp add: select_open_session_def find_open_None)
  then show ?thesis
    by (simp add: join_session_def get_conn_def Let_def insert_session_def session_exists_def)
qed

text \<open>
  C1. On a database that satisfies the schema, \<^verbatim>\<open>join_session\<close> either finds a
  row with player count 1, sets that one row to 2 and returns its id with the player id
  just drawn, every other row and every move staying as it was; or, when no row has
  player count 1 and the session id just drawn is new, appends one row with that id and
  player count 1 and returns the id with the player id just drawn.
\<close>

theorem join_session_spec:
  assumes "schema_ok s"
  shows "if list_ex (\<lambda>r. s_player_count r = 1) (tbl_sessions s)
         then \<exists>k<length (tbl_sessions s). s_player_count (tbl_sessions s ! k) = 1 \<and>
                join_session uuid1 uuid2 s =
                  (Inr (s_id (tbl_sessions s ! k), uuid1),
                   s\<lparr>tbl_sessions := (tbl_sessions s)
                        [k := \<lparr>s_id = s_id (tbl_sessions s ! k), s_player_count = 2\<rparr>]\<rparr>)
         else \<not> session_exists uuid2 s \<longrightarrow>
                join_session uuid1 uuid2 s =
                  (Inr (uuid2, uuid1),
                   s\<lparr>tbl_sessions := tbl_sessions s @ [\<lparr>s_id = uuid2, s_player_count = 1\<rparr>]\<rparr>)"
proof (cases "list_ex (\<lambda>r. s_player_count r = 1) (tbl_sessions s)")
  case True
  from assms have "distinct (map s_id (tbl_sessions s))" by (simp add: schema_ok_def)
  from join_session_open [OF this True, of uuid1 uuid2] True show ?thesis by simp
next
  case False
  from join_session_new [OF False, of uuid1 uuid2] False show ?thesis by simp
qed

section \<open>Sequences of calls keep the invariant\<close>

lemma join_session_cases:
  "join_session uuid1 uuid2 s = (Inl IntegrityError, s)
   \<or> (\<not> list_ex (\<lambda>r. s_player_count r = 1) (tbl_sessions s) \<and> \<not> session_exists uuid2 s
      \<and> join_session uuid1 uuid2 s =
          (Inr (uuid2, uuid1),
           s\<lparr>tbl_sessions := tbl_sessions s @ [\<lparr>s_id = uuid2, s_player_count = 1\<rparr>]\<rparr>))
   \<or> (\<exists>r \<in> set (tbl_sessions s). s_player_count r = 1
      \<and> join_session uuid1 uuid2 s =
          (Inr (s_id r, uuid1),
           s\<lparr>tbl_sessions :=
               map (\<lambda>r'. if s_id r' = s_id r then r'\<lparr>s_player_count := s_player_count r' + 1\<rparr> else r')
                 (tbl_sessions s)\<rparr>))"
proof (cases "find (\<lambda>r. s_player_count r = 1) (tbl_sessions s)")
  case None
  then have "\<not> list_ex (\<lambda>r. s_player_count r = 1) (tbl_sessions s)"
    by (simp add: find_open_None)
  from join_session_new [OF this, of uuid1 uuid2] this show ?thesis
    by (cases "session_exists uuid2 s") simp_all
next
  case (Some r)
  from find_open_Some [OF Some] have r: "r \<in> set (tbl_sessions s)" "s_player_count r = 1"
    by auto
  from Some have sel: "select_open_session s = Some (s_id r)"
    by (simp add: select_open_session_def)
  show ?thesis
  proof (cases "update_player_count (s_id r) s")
    case (Inl e)
    then have "e = IntegrityError"
      by (simp add: update_player_count_def split: if_splits)
    with Inl show ?thesis
      by (simp add: join_session_def get_conn_def Let_def sel)
  next
    case (Inr s')
    then have "s' = s\<lparr>tbl_sessions :=
               map (\<lambda>r'. if s_id r' = s_id r then r'\<lparr>s_player_count := s_player_count r' + 1\<rparr> else r')
                 (tbl_sessions s)\<rparr>"
      by (simp add: update_player_count_def split: if_splits)
    with Inr have "join_session uuid1 uuid2 s =
          (Inr (s_id r, uuid1),
           s\<lparr>tbl_sessions :=
               map (\<lambda>r'. if s_id r' = s_id r then r'\<lparr>s_player_count := s_player_count r' + 1\<rparr> else r')
                 (tbl_sessions s)\<rparr>)"
      by (simp add: join_session_def get_conn_def Let_def sel)
    with r show ?thesis by blast
  qed
qed

lemma moves_of_sessions_update [simp]: "moves_of i (s\<lparr>tbl_sessions := xs\<rparr>) = moves_of i s"
  by (simp add: moves_of_def)

lemma same_id_same_row:
  "distinct (map s_id xs) \<Longrightarrow> r \<in> set xs \<Longrightarrow> r' \<in> set xs \<Longrightarrow> s_id r' = s_id r \<Longrightarrow> r' = r"
  by (auto simp: distinct_map dest: inj_onD)

lemma inv_init: "engine_inv init_db"
  by (simp add: engine_inv_def init_db_def moves_of_def)

lemma inv_insert_session:
  assumes inv: "engine_inv s"
    and no: "\<not> list_ex (\<lambda>r. s_player_count r = 1) (tbl_sessions s)"
    and new: "\<not> session_exists u s"
  shows "engine_inv (s\<lparr>tbl_sessions := tbl_sessions s @ [\<lparr>s_id = u, s_player_count = 1\<rparr>]\<rparr>)"
proof -
  from no have no': "\<And>r. r \<in> set (tbl_sessions s) \<Longrightarrow> s_player_count r \<noteq> 1"
    by (auto simp: list_ex_iff)
  from new have new': "u \<notin> s_id ` set (tbl_sessions s)"
    by (simp add: session_exists_def)
  from inv no' new' show ?thesis
    unfolding engine_inv_def by (auto simp: Bex_def)
qed

lemma inv_update_player_count:
  assumes inv: "engine_inv s"
    and r: "r \<in> set (tbl_sessions s)" "s_player_count r = 1"
  shows "engine_inv (s\<lparr>tbl_sessions :=
            map (\<lambda>r'. if s_id r' = s_id r then r'\<lparr>s_player_count := s_player_count r' + 1\<rparr> else r')
              (tbl_sessions s)\<rparr>)"
proof -
  let ?xs = "tbl_sessions s"
  define f :: "session_row \<Rightarrow> session_row" where
    "f = (\<lambda>r'. if s_id r' = s_id r then r'\<lparr>s_player_count := s_player_count r' + 1\<rparr> else r')"
  from inv have d: "distinct (map s_id ?xs)" by (simp add: engine_inv_def)
  have same: "r' = r" if "r' \<in> set ?xs" "s_id r' = s_id r" for r'
    using same_id_same_row [OF d r(1) that] .
  have f: "f r' = (if r' = r then r\<lparr>s_player_count := 2\<rparr> else r')" if "r' \<in> set ?xs" for r'
    using same [OF that] r(2) by (auto simp: f_def)
  have "s_id (f r') = s_id r'" for r'
    by (simp add: f_def)
  then have ids: "map s_id (map f ?xs) = map s_id ?xs"
    by simp
  have 1: "distinct (map s_id (map f ?xs))"
    using d by (simp only: ids)
  have 2: "\<forall>q \<in> set (map f ?xs). s_player_count q = 1 \<or> s_player_count q = 2"
  proof
    fix q assume "q \<in> set (map f ?xs)"
    then obtain a where a: "a \<in> set ?xs" "q = f a" by auto
    from inv a(1) have "s_player_count a = 1 \<or> s_player_count a = 2"
      by (simp add: engine_inv_def)
    with a(2) f [OF a(1)] show "s_player_count q = 1 \<or> s_player_count q = 2"
      by (cases "a = r") simp_all
  qed
  have 3: "\<forall>m \<in> set (tbl_moves s). \<exists>q \<in> set (map f ?xs).
           s_id q = m_session_id m \<and> s_player_count q = 2"
  proof
    fix m assume "m \<in> set (tbl_moves s)"
    with inv obtain q where q: "q \<in> set ?xs" "s_id q = m_session_id m" "s_player_count q = 2"
      by (auto simp: engine_inv_def)
    with r(2) have "q \<noteq> r" by auto
    with f [OF q(1)] have fq: "f q = q" by simp
    from q(1) have "f q \<in> f ` set ?xs" by (rule imageI)
    with fq have "q \<in> set (map f ?xs)" by simp
    with q show "\<exists>q \<in> set (map f ?xs). s_id q = m_session_id m \<and> s_player_count q = 2"
      by blast
  qed
  have 6: "\<forall>q \<in> set (map f ?xs). \<forall>q' \<in> set (map f ?xs).
           s_player_count q = 1 \<and> s_player_count q' = 1 \<longrightarrow> q = q'"
  proof (intro ballI impI)
    fix q q' assume q: "q \<in> set (map f ?xs)" "q' \<in> set (map f ?xs)"
      and o: "s_player_count q = 1 \<and> s_player_count q' = 1"
    from q obtain a a' where a: "a \<in> set ?xs" "q = f a" "a' \<in> set ?xs" "q' = f a'"
      by auto
    from a o f [OF a(1)] f [OF a(3)] have "q = a" "q' = a'"
      by (auto split: if_splits)
    with a o inv show "q = q'"
      by (simp add: engine_inv_def)
  qed
  from inv 1 2 3 6 have "engine_inv (s\<lparr>tbl_sessions := map f ?xs\<rparr>)"
    by (simp add: engine_inv_def)
  then show ?thesis
    by (simp only: f_def)
qed

lemma moves_of_append:
  "moves_of j (s\<lparr>tbl_moves := tbl_moves s @ [m]\<rparr>) =
     (if m_session_id m = j then moves_of j s @ [m] else moves_of j s)"
  by (simp add: moves_of_def)

lemma inv_insert_move:
  assumes inv: "engine_inv s"
    and ex: "session_exists i s"
    and ph: "phase_of i s = Some waiting_for_moves"
    and new: "\<not> move_exists i p s"
  shows "engine_inv (s\<lparr>tbl_moves := tbl_moves s @
            [\<lparr>m_session_id = i, m_player_id = p, m_choice = c\<rparr>]\<rparr>)"
proof -
  from inv have d: "distinct (map s_id (tbl_sessions s))" by (simp add: engine_inv_def)
  from ex obtain r where r: "r \<in> set (tbl_sessions s)" "s_id r = i"
    by (auto simp: session_exists_def)
  from select_player_count_Some [OF d r(1)] r(2)
  have sel: "select_player_count i s = Some (s_player_count r)" by simp
  from inv r(1) have "s_player_count r = 1 \<or> s_player_count r = 2"
    by (simp add: engine_inv_def)
  with ph sel have two: "s_player_count r = 2" and lt: "count_moves i s < 2"
    by (auto simp: phase_of_eq decide_phase_def split: if_splits)
  from lt have len: "length (moves_of i s) \<le> 1"
    by (simp add: count_moves_def moves_of_def)
  from inv have all: "\<And>j. length (moves_of j s) \<le> 2" by (simp add: engine_inv_def)
  have 4: "\<forall>j. length (moves_of j (s\<lparr>tbl_moves := tbl_moves s @
            [\<lparr>m_session_id = i, m_player_id = p, m_choice = c\<rparr>]\<rparr>)) \<le> 2"
    using len all by (simp add: moves_of_append)
  from new have 5: "(i, p) \<notin> (\<lambda>m. (m_session_id m, m_player_id m)) ` set (tbl_moves s)"
    by (simp add: move_exists_def)
  from r two have 3: "\<exists>q \<in> set (tbl_sessions s). s_id q = i \<and> s_player_count q = 2"
    by blast
  from inv 3 4 5 show ?thesis
    by (simp add: engine_inv_def)
qed

lemma inv_join_session: "engine_inv s \<Longrightarrow> engine_inv (snd (join_session uuid1 uuid2 s))"
  using join_session_cases [of uuid1 uuid2 s]
  by (auto simp: inv_insert_session inv_update_player_count)

lemma phase_of_None: "phase_of i s = None \<longleftrightarrow> \<not> session_exists i s"
  by (simp add: phase_of_eq select_player_count_None)

lemma inv_save_move: "engine_inv s \<Longrightarrow> engine_inv (snd (save_move i p c s))"
proof -
  assume inv: "engine_inv s"
  show ?thesis
  proof (cases "session_exists i s \<and> phase_of i s = Some waiting_for_moves \<and> \<not> move_exists i p s")
    case True
    then have "snd (save_move i p c s) = s\<lparr>tbl_moves := tbl_moves s @
            [\<lparr>m_session_id = i, m_player_id = p, m_choice = c\<rparr>]\<rparr>"
      by (simp add: save_move_effect)
    with inv True show ?thesis
      by (simp add: inv_insert_move)
  next
    case False
    have "phase_of i s = Some waiting_for_opponent \<or> phase_of i s = Some finished
          \<or> phase_of i s = Some waiting_for_moves \<or> phase_of i s = None"
      by (cases "phase_of i s") (auto intro: phase.exhaust)
    with False have "snd (save_move i p c s) = s"
      by (auto simp: save_move_effect phase_of_None)
    with inv show ?thesis by simp
  qed
qed

lemma inv_exec: "engine_inv s \<Longrightarrow> engine_inv (exec x s)"
  by (cases x) (simp_all add: inv_join_session inv_save_move get_state_snd get_results_snd)

lemma inv_run: "engine_inv s \<Longrightarrow> engine_inv (run ops s)"
  by (induction ops arbitrary: s) (simp_all add: inv_exec)

lemma inv_reachable: "engine_inv (run ops init_db)"
  by (rule inv_run [OF inv_init])

lemma open_session_unique:
  "r \<in> set (tbl_sessions (run ops init_db)) \<Longrightarrow> r' \<in> set (tbl_sessions (run ops init_db)) \<Longrightarrow>
   s_player_count r = 1 \<Longrightarrow> s_player_count r' = 1 \<Longrightarrow> r = r'"
  using inv_reachable [of ops] by (simp add: engine_inv_def)

lemma grows_refl: "grows s s"
  by (auto simp: grows_def)

lemma grows_trans: "grows a b \<Longrightarrow> grows b c \<Longrightarrow> grows a c"
  unfolding grows_def by (metis order_trans)

lemma grows_join_session: "grows s (snd (join_session uuid1 uuid2 s))"
proof -
  from join_session_cases [of uuid1 uuid2 s] show ?thesis
  proof (elim disjE conjE bexE)
    assume "join_session uuid1 uuid2 s = (Inl IntegrityError, s)"
    then show ?thesis by (simp add: grows_refl)
  next
    assume "join_session uuid1 uuid2 s =
        (Inr (uuid2, uuid1),
         s\<lparr>tbl_sessions := tbl_sessions s @ [\<lparr>s_id = uuid2, s_player_count = 1\<rparr>]\<rparr>)"
    then show ?thesis by (auto simp: grows_def)
  next
    fix r assume upd: "join_session uuid1 uuid2 s =
        (Inr (s_id r, uuid1),
         s\<lparr>tbl_sessions :=
            map (\<lambda>r'. if s_id r' = s_id r then r'\<lparr>s_player_count := s_player_count r' + 1\<rparr> else r')
              (tbl_sessions s)\<rparr>)"
    define f :: "session_row \<Rightarrow> session_row" where
      "f = (\<lambda>r'. if s_id r' = s_id r then r'\<lparr>s_player_count := s_player_count r' + 1\<rparr> else r')"
    have "\<exists>q \<in> set (map f (tbl_sessions s)). s_id q = s_id a \<and> s_player_count a \<le> s_player_count q"
      if "a \<in> set (tbl_sessions s)" for a
    proof -
      from that have "f a \<in> set (map f (tbl_sessions s))" by simp
      moreover have "s_id (f a) = s_id a" "s_player_count a \<le> s_player_count (f a)"
        by (simp_all add: f_def)
      ultimately show ?thesis by blast
    qed
    then have "grows s (s\<lparr>tbl_sessions := map f (tbl_sessions s)\<rparr>)"
      by (simp add: grows_def)
    with upd show ?thesis by (simp only: f_def snd_conv)
  qed
qed

lemma save_move_sessions: "tbl_sessions (snd (save_move i p c s)) = tbl_sessions s"
  by (simp add: save_move_effect)

lemma grows_exec: "grows s (exec x s)"
proof (cases x)
  case (Join uuid1 uuid2)
  then show ?thesis by (simp add: grows_join_session)
next
  case (SaveMove i p c)
  then show ?thesis by (auto simp: grows_def save_move_sessions)
qed (simp_all add: get_state_snd get_results_snd grows_refl)

lemma grows_run: "grows s (run ops s)"
proof (induction ops arbitrary: s)
  case Nil
  show ?case by (simp add: grows_refl)
next
  case (Cons x ops)
  from grows_exec [of s x] Cons [of "exec x s"] show ?case
    by (simp add: grows_trans)
qed

text \<open>
  C5. In every database reached from the empty one by any sequence of calls, every
  session has a player count between 0 and 2, and after any further sequence of calls
  the session is still there with a player count that is not smaller.
\<close>

theorem player_count_bounded_monotone:
  "\<forall>r \<in> set (tbl_sessions (run ops init_db)).
     0 \<le> s_player_count r \<and> s_player_count r \<le> 2
     \<and> (\<exists>r' \<in> set (tbl_sessions (run ops' (run ops init_db))).
           s_id r' = s_id r \<and> s_player_count r \<le> s_player_count r')"
proof
  fix r assume r: "r \<in> set (tbl_sessions (run ops init_db))"
  from inv_reachable [of ops] r have "s_player_count r = 1 \<or> s_player_count r = 2"
    by (simp add: engine_inv_def)
  then have "0 \<le> s_player_count r \<and> s_player_count r \<le> 2" by auto
  moreover from grows_run [of "run ops init_db" ops'] r
  have "\<exists>r' \<in> set (tbl_sessions (run ops' (run ops init_db))).
           s_id r' = s_id r \<and> s_player_count r \<le> s_player_count r'"
    by (simp add: grows_def)
  ultimately show "0 \<le> s_player_count r \<and> s_player_count r \<le> 2
     \<and> (\<exists>r' \<in> set (tbl_sessions (run ops' (run ops init_db))).
           s_id r' = s_id r \<and> s_player_count r \<le> s_player_count r')"
    by simp
qed

lemma inv_players_of_session:
  assumes inv: "engine_inv s" and r: "r \<in> set (tbl_sessions s)"
  shows "int (card (m_player_id ` set (moves_of (s_id r) s))) \<le> s_player_count r"
proof -
  from inv have d: "distinct (map s_id (tbl_sessions s))" by (simp add: engine_inv_def)
  have le: "card (m_player_id ` set (moves_of (s_id r) s)) \<le> length (moves_of (s_id r) s)"
    by (rule order_trans [OF card_image_le card_length]) simp
  from inv r have "s_player_count r = 1 \<or> s_player_count r = 2"
    by (simp add: engine_inv_def)
  then show ?thesis
  proof
    assume two: "s_player_count r = 2"
    from inv have "length (moves_of (s_id r) s) \<le> 2" by (simp add: engine_inv_def)
    with le two show ?thesis by simp
  next
    assume one: "s_player_count r = 1"
    have "moves_of (s_id r) s = []"
    proof (rule ccontr)
      assume "moves_of (s_id r) s \<noteq> []"
      then obtain m where "m \<in> set (moves_of (s_id r) s)"
        by (cases "moves_of (s_id r) s") auto
      then have m: "m \<in> set (tbl_moves s)" "m_session_id m = s_id r"
        by (simp_all add: moves_of_def)
      with inv obtain q where q: "q \<in> set (tbl_sessions s)" "s_id q = s_id r" "s_player_count q = 2"
        by (auto simp: engine_inv_def)
      from same_id_same_row [OF d r q(1) q(2)] q(3) one show False by simp
    qed
    with one show ?thesis by simp
  qed
qed

text \<open>
  C6. In every database reached from the empty one by any sequence of calls, the number
  of distinct player ids among the moves of a session is at most the session's player
  count.
\<close>

theorem distinct_players_le_player_count:
  "\<forall>r \<in> set (tbl_sessions (run ops init_db)).
     int (card (m_player_id ` set (moves_of (s_id r) (run ops init_db)))) \<le> s_player_count r"
  using inv_players_of_session [OF inv_reachable [of ops]] by blast

lemma new_rows_join_session:
  assumes d: "distinct (map s_id (tbl_sessions s))"
    and q: "q \<in> set (tbl_sessions (snd (join_session uuid1 uuid2 s)))" "q \<notin> set (tbl_sessions s)"
  shows "s_player_count q = 1 \<or> s_player_count q = 2"
proof -
  from join_session_cases [of uuid1 uuid2 s] show ?thesis
  proof (elim disjE conjE bexE)
    assume "join_session uuid1 uuid2 s = (Inl IntegrityError, s)"
    with q show ?thesis by simp
  next
    assume "join_session uuid1 uuid2 s =
        (Inr (uuid2, uuid1),
         s\<lparr>tbl_sessions := tbl_sessions s @ [\<lparr>s_id = uuid2, s_player_count = 1\<rparr>]\<rparr>)"
    with q show ?thesis by auto
  next
    fix r assume upd: "r \<in> set (tbl_sessions s)" "s_player_count r = 1"
       "join_session uuid1 uuid2 s =
        (Inr (s_id r, uuid1),
         s\<lparr>tbl_sessions :=
            map (\<lambda>r'. if s_id r' = s_id r then r'\<lparr>s_player_count := s_player_count r' + 1\<rparr> else r')
              (tbl_sessions s)\<rparr>)"
    with q obtain a where a: "a \<in> set (tbl_sessions s)"
      "q = (if s_id a = s_id r then a\<lparr>s_player_count := s_player_count a + 1\<rparr> else a)"
      by auto
    with q(2) have "s_id a = s_id r" by (auto split: if_splits)
    from same_id_same_row [OF d upd(1) a(1) this] have "a = r" .
    with a(2) upd(2) show ?thesis by simp
  qed
qed

text \<open>
  C10. In every database reached from the empty one by any sequence of calls, every
  session has player count 1 or 2, never 0; and on any database that satisfies the
  schema, every session row that a call creates or changes has player count 1 or 2.
\<close>

theorem player_count_one_or_two:
  "(\<forall>r \<in> set (tbl_sessions (run ops init_db)). s_player_count r = 1 \<or> s_player_count r = 2)
   \<and> (schema_ok s \<longrightarrow>
        (\<forall>r \<in> set (tbl_sessions (exec x s)). r \<notin> set (tbl_sessions s) \<longrightarrow>
           s_player_count r = 1 \<or> s_player_count r = 2))"
proof (intro conjI impI ballI)
  fix r assume "r \<in> set (tbl_sessions (run ops init_db))"
  with inv_reachable [of ops] show "s_player_count r = 1 \<or> s_player_count r = 2"
    by (simp add: engine_inv_def)
next
  fix r assume ok: "schema_ok s" and r: "r \<in> set (tbl_sessions (exec x s))" "r \<notin> set (tbl_sessions s)"
  from ok have d: "distinct (map s_id (tbl_sessions s))" by (simp add: schema_ok_def)
  show "s_player_count r = 1 \<or> s_player_count r = 2"
  proof (cases x)
    case (Join uuid1 uuid2)
    with r new_rows_join_session [OF d, of r uuid1 uuid2] show ?thesis by simp
  next
    case (SaveMove i p c)
    with r show ?thesis by (simp add: save_move_sessions)
  next
    case (GetState i)
    with r show ?thesis by (simp add: get_state_snd)
  next
    case (GetResults i)
    with r show ?thesis by (simp add: get_results_snd)
  qed
qed

section \<open>Issued players and results\<close>

lemma issued_ok_sessions:
  "tbl_sessions s' = tbl_sessions s \<Longrightarrow> issued_ok js s \<Longrightarrow> issued_ok js s'"
  by (simp add: issued_ok_def session_exists_def)

lemma issued_ok_join_session:
  assumes ok: "issued_ok js s"
  shows "issued_ok (js @ issued_by (Join uuid1 uuid2) s) (snd (join_session uuid1 uuid2 s))"
proof -
  from join_session_cases [of uuid1 uuid2 s] show ?thesis
  proof (elim disjE conjE bexE)
    assume "join_session uuid1 uuid2 s = (Inl IntegrityError, s)"
    with ok show ?thesis by simp
  next
    assume new: "\<not> session_exists uuid2 s"
      and eq: "join_session uuid1 uuid2 s =
        (Inr (uuid2, uuid1),
         s\<lparr>tbl_sessions := tbl_sessions s @ [\<lparr>s_id = uuid2, s_player_count = 1\<rparr>]\<rparr>)"
    from ok new have none: "filter (\<lambda>q. fst q = uuid2) js = []"
      by (auto simp: issued_ok_def filter_empty_conv)
    from new have other: "s_id r \<noteq> uuid2" if "r \<in> set (tbl_sessions s)" for r
      using that by (auto simp: session_exists_def)
    from ok none other have
      "issued_ok (js @ [(uuid2, uuid1)])
         (s\<lparr>tbl_sessions := tbl_sessions s @ [\<lparr>s_id = uuid2, s_player_count = 1\<rparr>]\<rparr>)"
      by (auto simp: issued_ok_def session_exists_def)
    with eq show ?thesis by simp
  next
    fix r assume eq: "join_session uuid1 uuid2 s =
        (Inr (s_id r, uuid1),
         s\<lparr>tbl_sessions :=
            map (\<lambda>r'. if s_id r' = s_id r then r'\<lparr>s_player_count := s_player_count r' + 1\<rparr> else r')
              (tbl_sessions s)\<rparr>)"
      and r: "r \<in> set (tbl_sessions s)"
    define f :: "session_row \<Rightarrow> session_row" where
      "f = (\<lambda>r'. if s_id r' = s_id r then r'\<lparr>s_player_count := s_player_count r' + 1\<rparr> else r')"
    have id: "s_id (f a) = s_id a" for a
      by (simp add: f_def)
    have cnt: "int (length (filter (\<lambda>q. fst q = s_id (f a)) (js @ [(s_id r, uuid1)])))
                 = s_player_count (f a)" if "a \<in> set (tbl_sessions s)" for a
    proof -
      from ok that have "int (length (filter (\<lambda>q. fst q = s_id a) js)) = s_player_count a"
        by (simp add: issued_ok_def)
      then show ?thesis
        by (auto simp: f_def)
    qed
    have ex: "session_exists (fst q) (s\<lparr>tbl_sessions := map f (tbl_sessions s)\<rparr>)"
      if "q \<in> set (js @ [(s_id r, uuid1)])" for q
    proof -
      from that ok r have "session_exists (fst q) s"
        by (auto simp: issued_ok_def session_exists_def)
      then show ?thesis
        by (simp add: session_exists_def id comp_def)
    qed
    from cnt ex have "issued_ok (js @ [(s_id r, uuid1)]) (s\<lparr>tbl_sessions := map f (tbl_sessions s)\<rparr>)"
      unfolding issued_ok_def by auto
    with eq show ?thesis
      by (simp add: f_def)
  qed
qed

lemma issued_ok_exec: "issued_ok js s \<Longrightarrow> issued_ok (js @ issued_by x s) (exec x s)"
proof (cases x)
  case (Join uuid1 uuid2)
  assume "issued_ok js s"
  from issued_ok_join_session [OF this, of uuid1 uuid2] Join show ?thesis by simp
next
  case (SaveMove i p c)
  assume "issued_ok js s"
  with SaveMove show ?thesis
    by (simp add: issued_ok_sessions [OF save_move_sessions])
qed (simp_all add: get_state_snd get_results_snd)

lemma issued_ok_run: "issued_ok js s \<Longrightarrow> issued_ok (js @ issued ops s) (run ops s)"
proof (induction ops arbitrary: s js)
  case Nil
  then show ?case by simp
next
  case (Cons x ops)
  from Cons.IH [OF issued_ok_exec [OF Cons.prems, of x]] show ?case by simp
qed

lemma issued_ok_reachable: "issued_ok (issued ops init_db) (run ops init_db)"
  using issued_ok_run [of "[]" init_db ops] by (simp add: issued_ok_def init_db_def)

lemma distinct_players_of_session:
  "distinct (map (\<lambda>m. (m_session_id m, m_player_id m)) ms) \<Longrightarrow>
   distinct (map m_player_id (filter (\<lambda>m. m_session_id m = i) ms))"
  by (induction ms) (auto simp: image_iff)

text \<open>
  C7, as the code has it. In every database reached from the empty one by any sequence
  of calls, each session has at most two moves, no two of them with the same player id,
  and every move belongs to a session to which exactly two calls of
  \<^verbatim>\<open>join_session\<close> have attached a player. The player id of a move is the string
  the caller passed: it is not compared with the ids that \<^verbatim>\<open>join_session\<close> issued.
\<close>

theorem moves_of_session_bounded:
  "(\<forall>i. length (moves_of i (run ops init_db)) \<le> 2
        \<and> distinct (map m_player_id (moves_of i (run ops init_db))))
   \<and> (\<forall>m \<in> set (tbl_moves (run ops init_db)).
         length (filter (\<lambda>q. fst q = m_session_id m) (issued ops init_db)) = 2)"
proof (intro conjI allI ballI)
  fix i
  from inv_reachable [of ops] show "length (moves_of i (run ops init_db)) \<le> 2"
    by (simp add: engine_inv_def)
  from inv_reachable [of ops] show "distinct (map m_player_id (moves_of i (run ops init_db)))"
    by (simp add: engine_inv_def moves_of_def distinct_players_of_session)
next
  fix m assume "m \<in> set (tbl_moves (run ops init_db))"
  with inv_reachable [of ops] obtain r where r: "r \<in> set (tbl_sessions (run ops init_db))"
      "s_id r = m_session_id m" "s_player_count r = 2"
    by (auto simp: engine_inv_def)
  from issued_ok_reachable [of ops] r(1)
  have "int (length (filter (\<lambda>q. fst q = s_id r) (issued ops init_db))) = s_player_count r"
    by (simp add: issued_ok_def)
  with r show "length (filter (\<lambda>q. fst q = m_session_id m) (issued ops init_db)) = 2"
    by simp
qed

lemma save_move_success:
  "fst (save_move i p c s) = Inr () \<Longrightarrow>
   snd (save_move i p c s) =
     s\<lparr>tbl_moves := tbl_moves s @ [\<lparr>m_session_id = i, m_player_id = p, m_choice = c\<rparr>]\<rparr>"
  by (simp add: save_move_effect split: if_splits)

text \<open>
  C3, as the code has it. \<^verbatim>\<open>get_results\<close> never raises: it returns the moves of the
  session in the order of their insertion, which is the empty list for a session id
  without a row (on a database that satisfies the schema), and a move accepted by
  \<^verbatim>\<open>save_move\<close> comes last in the list of its session.
\<close>

theorem get_results_never_fails:
  "fst (get_results i s) =
     Inr (map (\<lambda>m. \<lparr>r_player = m_player_id m, r_choice = m_choice m\<rparr>) (moves_of i s))
   \<and> (schema_ok s \<and> \<not> session_exists i s \<longrightarrow> fst (get_results i s) = Inr [])
   \<and> (fst (save_move i p c s) = Inr () \<longrightarrow>
        fst (get_results i (snd (save_move i p c s))) =
          Inr (map (\<lambda>m. \<lparr>r_player = m_player_id m, r_choice = m_choice m\<rparr>) (moves_of i s)
               @ [\<lparr>r_player = p, r_choice = c\<rparr>]))"
proof (intro conjI impI)
  show "fst (get_results i s) =
     Inr (map (\<lambda>m. \<lparr>r_player = m_player_id m, r_choice = m_choice m\<rparr>) (moves_of i s))"
    by (simp add: get_results_eq)
next
  assume "schema_ok s \<and> \<not> session_exists i s"
  then have "moves_of i s = []"
    by (simp add: schema_ok_def moves_of_unknown)
  then show "fst (get_results i s) = Inr []"
    by (simp add: get_results_eq)
next
  assume "fst (save_move i p c s) = Inr ()"
  from save_move_success [OF this]
  show "fst (get_results i (snd (save_move i p c s))) =
          Inr (map (\<lambda>m. \<lparr>r_player = m_player_id m, r_choice = m_choice m\<rparr>) (moves_of i s)
               @ [\<lparr>r_player = p, r_choice = c\<rparr>])"
    by (simp add: get_results_eq moves_of_append)
qed

text \<open>
  C3 as stated fails: for a session id that has no row, \<^verbatim>\<open>get_results\<close> returns the
  empty list and does not raise the unknown-session error.
\<close>

theorem get_results_unknown_counterexample:
  "\<not> session_exists ''unknown'' init_db
   \<and> fst (get_results ''unknown'' init_db) = Inr []
   \<and> fst (get_results ''unknown'' init_db) \<noteq> Inl (NotFound ''unknown'')"
  by (simp add: session_exists_def init_db_def get_results_eq moves_of_def)

section \<open>Concrete databases and calls\<close>

lemmas engine_defs =
  Let_def init_db_def get_conn_def select_open_session_def update_player_count_def
  insert_session_def select_player_count_def count_moves_def insert_move_def select_moves_def
  join_session_def decide_phase_def get_state_def save_move_def get_results_def

lemma run_join1: "run [Join ''p1'' ''s1''] init_db = db1"
  by (simp add: engine_defs db1_def)

lemma run_join2: "run [Join ''p1'' ''s1'', Join ''p2'' ''s2''] init_db = db2"
  by (simp add: engine_defs db2_def)

lemma run_join2': "run [Join ''p2'' ''s2''] db1 = db2"
  by (simp add: engine_defs db1_def db2_def)

lemma run_move: "run [Join ''p1'' ''s1'', Join ''p2'' ''s2'', SaveMove ''s1'' ''p1'' ''rock''] init_db = db3"
  by (simp add: engine_defs db3_def)

lemma run_move': "run [Join ''p1'' ''s1'', Join ''p2'' ''s2'', SaveMove ''s1'' ''p3'' ''rock''] init_db = db3'"
  by (simp add: engine_defs db3'_def)

lemma issued_move: "issued [Join ''p1'' ''s1'', Join ''p2'' ''s2'', SaveMove ''s1'' ''p1'' ''rock''] init_db
   = [(''s1'', ''p1''), (''s1'', ''p2'')]"
  by (simp add: engine_defs)

lemma issued_move': "issued [Join ''p1'' ''s1'', Join ''p2'' ''s2'', SaveMove ''s1'' ''p3'' ''rock''] init_db
   = [(''s1'', ''p1''), (''s1'', ''p2'')]"
  by (simp add: engine_defs)

lemma db_schema_ok: "schema_ok init_db" "schema_ok db1" "schema_ok db2" "schema_ok db3"
  by (simp_all add: schema_ok_def init_db_def db1_def db2_def db3_def)

lemma db1_facts:
  "list_ex (\<lambda>r. s_player_count r = 1) (tbl_sessions db1)"
  "session_exists ''s1'' db1"
  "phase_of ''s1'' db1 = Some waiting_for_opponent"
  by (simp_all add: session_exists_def phase_of_eq select_player_count_def count_moves_def
      decide_phase_def db1_def)

lemma db2_facts:
  "session_exists ''s1'' db2"
  "phase_of ''s1'' db2 = Some waiting_for_moves"
  "\<not> move_exists ''s1'' ''p1'' db2"
  by (simp_all add: session_exists_def move_exists_def phase_of_eq select_player_count_def
      count_moves_def decide_phase_def db2_def)

lemma db2_insert:
  "db2\<lparr>tbl_moves := tbl_moves db2 @
      [\<lparr>m_session_id = ''s1'', m_player_id = ''p1'', m_choice = ''rock''\<rparr>]\<rparr> = db3"
  by (simp add: db2_def db3_def)

lemma db3_facts:
  "session_exists ''s1'' db3"
  "phase_of ''s1'' db3 = Some waiting_for_moves"
  "move_exists ''s1'' ''p1'' db3"
  "\<not> session_exists ''s2'' db3"
  by (simp_all add: session_exists_def move_exists_def phase_of_eq select_player_count_def
      count_moves_def decide_phase_def db3_def)

text \<open>The first join creates session \<open>s1\<close>; the second join fills it.\<close>

theorem join_session_spec_witness:
  "schema_ok init_db \<and> \<not> session_exists ''s1'' init_db
   \<and> join_session ''p1'' ''s1'' init_db = (Inr (''s1'', ''p1''), db1)
   \<and> schema_ok db1 \<and> list_ex (\<lambda>r. s_player_count r = 1) (tbl_sessions db1)
   \<and> join_session ''p2'' ''s2'' db1 = (Inr (''s1'', ''p2''), db2)"
proof -
  from join_session_spec [OF db_schema_ok(1), of "''p1''" "''s1''"]
  have a: "join_session ''p1'' ''s1'' init_db = (Inr (''s1'', ''p1''), db1)"
    by (simp add: session_exists_def init_db_def db1_def)
  from join_session_spec [OF db_schema_ok(2), of "''p2''" "''s2''"]
  have b: "join_session ''p2'' ''s2'' db1 = (Inr (''s1'', ''p2''), db2)"
    by (simp add: db1_def db2_def)
  have c: "\<not> session_exists ''s1'' init_db"
    by (simp add: session_exists_def init_db_def)
  from a b c db_schema_ok(1,2) db1_facts(1) show ?thesis
    by blast
qed

lemma db4_facts:
  "schema_ok db4"
  "\<lparr>s_id = ''s1'', s_player_count = 2\<rparr> \<in> set (tbl_sessions db4)"
  "int (length (moves_of ''s1'' db4)) = 2"
  by (simp_all add: schema_ok_def moves_of_def db4_def)

lemma row_facts:
  "\<lparr>s_id = ''s1'', s_player_count = 1\<rparr> \<in> set (tbl_sessions db1)"
  "\<lparr>s_id = ''s1'', s_player_count = 2\<rparr> \<in> set (tbl_sessions db2)"
  "\<lparr>s_id = ''s1'', s_player_count = 2\<rparr> \<in> set (tbl_sessions db3)"
  "s_id \<lparr>s_id = ''s1'', s_player_count = 1\<rparr> = ''s1''"
  "s_id \<lparr>s_id = ''s1'', s_player_count = 2\<rparr> = ''s1''"
  "int (length (moves_of ''s1'' db1)) = 0"
  "int (length (moves_of ''s1'' db2)) = 0"
  "int (length (moves_of ''s1'' db3)) = 1"
  by (simp_all add: moves_of_def db1_def db2_def db3_def)

text \<open>
  An accepted move, a duplicate, an unknown session, a session without opponent, and a
  finished session.
\<close>

theorem save_move_spec_witness:
  "schema_ok db2 \<and> \<lparr>s_id = ''s1'', s_player_count = 2\<rparr> \<in> set (tbl_sessions db2)
   \<and> \<not> move_exists ''s1'' ''p1'' db2
   \<and> save_move ''s1'' ''p1'' ''rock'' db2 = (Inr (), db3)
   \<and> schema_ok db3 \<and> move_exists ''s1'' ''p1'' db3
   \<and> save_move ''s1'' ''p1'' ''paper'' db3 = (Inl DuplicateMove, db3)
   \<and> \<not> session_exists ''s2'' db3
   \<and> save_move ''s2'' ''p1'' ''rock'' db3 = (Inl (NotFound ''s2''), db3)
   \<and> schema_ok db1
   \<and> save_move ''s1'' ''p1'' ''rock'' db1 = (Inl InvalidState_waiting, db1)
   \<and> schema_ok db4 \<and> int (length (moves_of ''s1'' db4)) = 2
   \<and> save_move ''s1'' ''p3'' ''scissors'' db4 = (Inl InvalidState_finished, db4)"
proof -
  from mp [OF bspec [OF conjunct1 [OF conjunct2 [OF save_move_spec [OF db_schema_ok(3)]]]
        row_facts(2)] row_facts(5), of "''p1''" "''rock''"]
  have a: "save_move ''s1'' ''p1'' ''rock'' db2 = (Inr (), db3)"
    by (simp add: spec_phase_def row_facts db2_facts db2_insert)
  from mp [OF bspec [OF conjunct1 [OF conjunct2 [OF save_move_spec [OF db_schema_ok(4)]]]
        row_facts(3)] row_facts(5), of "''p1''" "''paper''"]
  have b: "save_move ''s1'' ''p1'' ''paper'' db3 = (Inl DuplicateMove, db3)"
    by (simp add: spec_phase_def row_facts db3_facts)
  from mp [OF conjunct1 [OF save_move_spec [OF db_schema_ok(4)]] db3_facts(4)]
  have c: "save_move ''s2'' ''p1'' ''rock'' db3 = (Inl (NotFound ''s2''), db3)" .
  from mp [OF bspec [OF conjunct1 [OF conjunct2 [OF save_move_spec [OF db_schema_ok(2)]]]
        row_facts(1)] row_facts(4), of "''p1''" "''rock''"]
  have d: "save_move ''s1'' ''p1'' ''rock'' db1 = (Inl InvalidState_waiting, db1)"
    by (simp add: spec_phase_def row_facts)
  from mp [OF bspec [OF conjunct1 [OF conjunct2 [OF save_move_spec [OF db4_facts(1)]]]
        db4_facts(2)] row_facts(5), of "''p3''" "''scissors''"]
  have e: "save_move ''s1'' ''p3'' ''scissors'' db4 = (Inl InvalidState_finished, db4)"
    by (simp add: spec_phase_def db4_facts row_facts)
  from a b c d e db_schema_ok(2,3,4) db4_facts(1,3) row_facts(2) db2_facts(3) db3_facts(3,4)
  show ?thesis
    by (intro conjI)
qed

text \<open>The state of a full session with one move, and of an unknown session.\<close>

theorem get_state_spec_witness:
  "schema_ok db3 \<and> \<lparr>s_id = ''s1'', s_player_count = 2\<rparr> \<in> set (tbl_sessions db3)
   \<and> fst (get_state ''s1'' db3) = Inr \<lparr>st_players = 2, st_moves = 1, st_phase = waiting_for_moves\<rparr>
   \<and> \<not> session_exists ''s2'' db3
   \<and> fst (get_state ''s2'' db3) = Inl (NotFound ''s2'')"
proof -
  have m: "\<lparr>s_id = ''s1'', s_player_count = 2\<rparr> \<in> set (tbl_sessions db3)"
    by (simp add: db3_def)
  have l: "int (length (moves_of ''s1'' db3)) = 1"
    by (simp add: moves_of_def db3_def)
  from get_state_spec [OF db_schema_ok(4), of "''s1''"]
  have "\<forall>r \<in> set (tbl_sessions db3). s_id r = ''s1'' \<longrightarrow>
           fst (get_state ''s1'' db3) =
             Inr \<lparr>st_players = s_player_count r,
                  st_moves = int (length (moves_of ''s1'' db3)),
                  st_phase = spec_phase (s_player_count r) (int (length (moves_of ''s1'' db3)))\<rparr>"
    by blast
  from bspec [OF this m]
  have b: "fst (get_state ''s1'' db3) =
      Inr \<lparr>st_players = 2, st_moves = 1, st_phase = waiting_for_moves\<rparr>"
    by (simp add: l spec_phase_def)
  have c: "fst (get_state ''s2'' db3) = Inl (NotFound ''s2'')"
    by (rule iffD2 [OF conjunct1 [OF get_state_spec [OF db_schema_ok(4)]] db3_facts(4)])
  from m b c db_schema_ok(4) db3_facts(4) show ?thesis
    by blast
qed

text \<open>The results of an unknown session, and of a session after its first move.\<close>

theorem get_results_never_fails_witness:
  "schema_ok db3 \<and> \<not> session_exists ''s2'' db3
   \<and> fst (get_results ''s2'' db3) = Inr []
   \<and> fst (save_move ''s1'' ''p1'' ''rock'' db2) = Inr ()
   \<and> fst (get_results ''s1'' (snd (save_move ''s1'' ''p1'' ''rock'' db2)))
       = Inr [\<lparr>r_player = ''p1'', r_choice = ''rock''\<rparr>]"
proof -
  have s: "save_move ''s1'' ''p1'' ''rock'' db2 = (Inr (), db3)"
    by (simp add: save_move_effect db2_facts db2_insert)
  then have ok: "fst (save_move ''s1'' ''p1'' ''rock'' db2) = Inr ()"
    by simp
  have e: "moves_of ''s1'' db2 = []"
    by (simp add: moves_of_def db2_def)
  from get_results_never_fails [of "''s2''" db3] db_schema_ok(4) db3_facts(4)
  have a: "fst (get_results ''s2'' db3) = Inr []"
    by blast
  from get_results_never_fails [of "''s1''" db2 "''p1''" "''rock''"] ok
  have "fst (get_results ''s1'' (snd (save_move ''s1'' ''p1'' ''rock'' db2))) =
          Inr (map (\<lambda>m. \<lparr>r_player = m_player_id m, r_choice = m_choice m\<rparr>) (moves_of ''s1'' db2)
               @ [\<lparr>r_player = ''p1'', r_choice = ''rock''\<rparr>])"
    by blast
  then have b: "fst (get_results ''s1'' (snd (save_move ''s1'' ''p1'' ''rock'' db2)))
       = Inr [\<lparr>r_player = ''p1'', r_choice = ''rock''\<rparr>]"
    by (simp add: e)
  from a b ok db_schema_ok(4) db3_facts(4) show ?thesis
    by blast
qed

text \<open>Session \<open>s1\<close> after one join, and after one more.\<close>

theorem player_count_bounded_monotone_witness:
  "\<lparr>s_id = ''s1'', s_player_count = 1\<rparr> \<in> set (tbl_sessions (run [Join ''p1'' ''s1''] init_db))
   \<and> 0 \<le> s_player_count \<lparr>s_id = ''s1'', s_player_count = 1\<rparr>
   \<and> s_player_count \<lparr>s_id = ''s1'', s_player_count = 1\<rparr> \<le> 2
   \<and> (\<exists>r' \<in> set (tbl_sessions (run [Join ''p2'' ''s2''] (run [Join ''p1'' ''s1''] init_db))).
         s_id r' = s_id \<lparr>s_id = ''s1'', s_player_count = 1\<rparr>
         \<and> s_player_count \<lparr>s_id = ''s1'', s_player_count = 1\<rparr> \<le> s_player_count r')"
proof -
  have m: "\<lparr>s_id = ''s1'', s_player_count = 1\<rparr> \<in> set (tbl_sessions (run [Join ''p1'' ''s1''] init_db))"
    by (simp only: run_join1) (simp add: db1_def)
  show ?thesis
    by (rule conjI [OF m bspec [OF player_count_bounded_monotone m]])
qed

text \<open>A full session with one move.\<close>

theorem distinct_players_le_player_count_witness:
  "\<lparr>s_id = ''s1'', s_player_count = 2\<rparr>
     \<in> set (tbl_sessions
          (run [Join ''p1'' ''s1'', Join ''p2'' ''s2'', SaveMove ''s1'' ''p1'' ''rock''] init_db))
   \<and> int (card (m_player_id ` set (moves_of (s_id \<lparr>s_id = ''s1'', s_player_count = 2\<rparr>)
          (run [Join ''p1'' ''s1'', Join ''p2'' ''s2'', SaveMove ''s1'' ''p1'' ''rock''] init_db))))
       \<le> s_player_count \<lparr>s_id = ''s1'', s_player_count = 2\<rparr>"
proof -
  have m: "\<lparr>s_id = ''s1'', s_player_count = 2\<rparr>
     \<in> set (tbl_sessions
          (run [Join ''p1'' ''s1'', Join ''p2'' ''s2'', SaveMove ''s1'' ''p1'' ''rock''] init_db))"
    by (simp only: run_move) (simp add: db3_def)
  show ?thesis
    by (rule conjI [OF m bspec [OF distinct_players_le_player_count m]])
qed

text \<open>The row that the first join creates and the row that the second join changes.\<close>

theorem player_count_one_or_two_witness:
  "\<lparr>s_id = ''s1'', s_player_count = 1\<rparr> \<in> set (tbl_sessions (run [Join ''p1'' ''s1''] init_db))
   \<and> (s_player_count \<lparr>s_id = ''s1'', s_player_count = 1\<rparr> = 1
        \<or> s_player_count \<lparr>s_id = ''s1'', s_player_count = 1\<rparr> = 2)
   \<and> schema_ok db1
   \<and> \<lparr>s_id = ''s1'', s_player_count = 2\<rparr> \<in> set (tbl_sessions (exec (Join ''p2'' ''s2'') db1))
   \<and> \<lparr>s_id = ''s1'', s_player_count = 2\<rparr> \<notin> set (tbl_sessions db1)
   \<and> (s_player_count \<lparr>s_id = ''s1'', s_player_count = 2\<rparr> = 1
        \<or> s_player_count \<lparr>s_id = ''s1'', s_player_count = 2\<rparr> = 2)"
proof -
  have m: "\<lparr>s_id = ''s1'', s_player_count = 1\<rparr> \<in> set (tbl_sessions (run [Join ''p1'' ''s1''] init_db))"
    by (simp only: run_join1) (simp add: db1_def)
  have e: "exec (Join ''p2'' ''s2'') db1 = db2"
    using run_join2' by simp
  have n: "\<lparr>s_id = ''s1'', s_player_count = 2\<rparr> \<in> set (tbl_sessions (exec (Join ''p2'' ''s2'') db1))"
    by (simp only: e) (simp add: db2_def)
  have o: "\<lparr>s_id = ''s1'', s_player_count = 2\<rparr> \<notin> set (tbl_sessions db1)"
    by (simp add: db1_def)
  note inst = player_count_one_or_two [of "[Join ''p1'' ''s1'']" db1 "Join ''p2'' ''s2''"]
  from bspec [OF conjunct1 [OF inst] m]
  have a: "s_player_count \<lparr>s_id = ''s1'', s_player_count = 1\<rparr> = 1
        \<or> s_player_count \<lparr>s_id = ''s1'', s_player_count = 1\<rparr> = 2" .
  from mp [OF bspec [OF mp [OF conjunct2 [OF inst] db_schema_ok(2)] n] o]
  have b: "s_player_count \<lparr>s_id = ''s1'', s_player_count = 2\<rparr> = 1
        \<or> s_player_count \<lparr>s_id = ''s1'', s_player_count = 2\<rparr> = 2" .
  from m a db_schema_ok(2) n o b show ?thesis
    by (intro conjI)
qed

text \<open>The move of player \<open>p1\<close> in the full session \<open>s1\<close>.\<close>

theorem moves_of_session_bounded_witness:
  "length (moves_of ''s1''
      (run [Join ''p1'' ''s1'', Join ''p2'' ''s2'', SaveMove ''s1'' ''p1'' ''rock''] init_db)) \<le> 2
   \<and> distinct (map m_player_id (moves_of ''s1''
      (run [Join ''p1'' ''s1'', Join ''p2'' ''s2'', SaveMove ''s1'' ''p1'' ''rock''] init_db)))
   \<and> \<lparr>m_session_id = ''s1'', m_player_id = ''p1'', m_choice = ''rock''\<rparr>
       \<in> set (tbl_moves
            (run [Join ''p1'' ''s1'', Join ''p2'' ''s2'', SaveMove ''s1'' ''p1'' ''rock''] init_db))
   \<and> length (filter
        (\<lambda>q. fst q = m_session_id \<lparr>m_session_id = ''s1'', m_player_id = ''p1'', m_choice = ''rock''\<rparr>)
        (issued [Join ''p1'' ''s1'', Join ''p2'' ''s2'', SaveMove ''s1'' ''p1'' ''rock''] init_db)) = 2"
proof -
  have m: "\<lparr>m_session_id = ''s1'', m_player_id = ''p1'', m_choice = ''rock''\<rparr>
       \<in> set (tbl_moves
            (run [Join ''p1'' ''s1'', Join ''p2'' ''s2'', SaveMove ''s1'' ''p1'' ''rock''] init_db))"
    by (simp only: run_move) (simp add: db3_def)
  note inst = moves_of_session_bounded
    [of "[Join ''p1'' ''s1'', Join ''p2'' ''s2'', SaveMove ''s1'' ''p1'' ''rock'']"]
  from spec [OF conjunct1 [OF inst], of "''s1''"] m bspec [OF conjunct2 [OF inst] m]
  show ?thesis
    by (intro conjI) (erule conjunct1, erule conjunct2, assumption+)
qed

text \<open>
  C7 as stated fails: after two joins have filled session \<open>s1\<close> with the players
  \<open>p1\<close> and \<open>p2\<close>, a move under the player id \<open>p3\<close>, which no join has issued,
  is accepted and stored.
\<close>

theorem unissued_player_counterexample:
  "\<lparr>m_session_id = ''s1'', m_player_id = ''p3'', m_choice = ''rock''\<rparr>
     \<in> set (tbl_moves
          (run [Join ''p1'' ''s1'', Join ''p2'' ''s2'', SaveMove ''s1'' ''p3'' ''rock''] init_db))
   \<and> (''s1'', ''p3'')
     \<notin> set (issued [Join ''p1'' ''s1'', Join ''p2'' ''s2'', SaveMove ''s1'' ''p3'' ''rock''] init_db)"
  by (simp only: run_move' issued_move') (simp add: db3'_def)

section \<open>Joins that overlap\<close>












end
